theory Spec2Isabelle
  imports Complex_Main "HOL-Library.Sublist"
begin

section \<open>Strings and numbers of the source language\<close>

text \<open>
  The program is \<^verbatim>\<open>src/source/helpers/components/codeExample.ts\<close>. A string of the
  source is a sequence of code units and \<^verbatim>\<open>length\<close> counts them; here a string is a
  \<^typ>\<open>string\<close>, one \<^typ>\<open>char\<close> per code unit, which covers the texts whose code units
  are below 256.
\<close>

definition newline :: char where
  "newline = CHR 0x0A"

text \<open>
  The white space and line terminators that \<^verbatim>\<open>String.prototype.trim\<close> removes, among the
  code units below 256: TAB, LF, VT, FF, CR, SP and NBSP.
\<close>

definition isWhiteSpace :: "char \<Rightarrow> bool" where
  "isWhiteSpace c =
     (c = CHR 0x09 \<or> c = CHR 0x0A \<or> c = CHR 0x0B \<or> c = CHR 0x0C \<or> c = CHR 0x0D \<or>
      c = CHR 0x20 \<or> c = CHR 0xA0)"

definition trim :: "string \<Rightarrow> string" where
  "trim s = rev (dropWhile isWhiteSpace (rev (dropWhile isWhiteSpace s)))"

text \<open>
  \<^verbatim>\<open>String.prototype.split\<close> with a string separator: the text is scanned from the left,
  every occurrence of the separator that starts at or after the end of the previous one
  closes a piece, and the rest of the text is the last piece. \<open>splitFrom\<close> is the scan for a
  non-empty separator; an empty separator splits into the single code units.
\<close>

fun splitFrom :: "string \<Rightarrow> string \<Rightarrow> string list" where
  "splitFrom sep [] = [[]]"
| "splitFrom sep (c # cs) =
     (if take (length sep) (c # cs) = sep
      then [] # splitFrom sep (drop (length sep - 1) cs)
      else (case splitFrom sep cs of
              [] \<Rightarrow> [[c]]
            | p # ps \<Rightarrow> (c # p) # ps))"

definition splitString :: "string \<Rightarrow> string \<Rightarrow> string list" where
  "splitString s sep = (if sep = [] then map (\<lambda>c. [c]) s else splitFrom sep s)"

text \<open>
  A number of the source is a double. The finite values that occur are line counts,
  widths and the split location; they are modelled by the rationals, without rounding
  (counts and widths are small integers, which a double holds exactly). The infinities
  and NaN are kept, since \<^verbatim>\<open>Math.max()\<close> of no arguments is \<^verbatim>\<open>-Infinity\<close>.
\<close>

datatype number = NaN | NegInfinity | Finite rat | Infinity

fun num_neg :: "number \<Rightarrow> number" where
  "num_neg NaN = NaN"
| "num_neg NegInfinity = Infinity"
| "num_neg Infinity = NegInfinity"
| "num_neg (Finite a) = Finite (- a)"

fun num_add :: "number \<Rightarrow> number \<Rightarrow> number" where
  "num_add NaN _ = NaN"
| "num_add _ NaN = NaN"
| "num_add Infinity NegInfinity = NaN"
| "num_add NegInfinity Infinity = NaN"
| "num_add Infinity _ = Infinity"
| "num_add _ Infinity = Infinity"
| "num_add NegInfinity _ = NegInfinity"
| "num_add _ NegInfinity = NegInfinity"
| "num_add (Finite a) (Finite b) = Finite (a + b)"

definition num_sub :: "number \<Rightarrow> number \<Rightarrow> number" where
  "num_sub x y = num_add x (num_neg y)"

text \<open>Multiplication and division by a finite positive literal.\<close>

fun num_times :: "number \<Rightarrow> rat \<Rightarrow> number" where
  "num_times (Finite a) d = Finite (a * d)"
| "num_times x d = x"

fun num_over :: "number \<Rightarrow> rat \<Rightarrow> number" where
  "num_over (Finite a) d = Finite (a / d)"
| "num_over x d = x"

fun num_less :: "number \<Rightarrow> number \<Rightarrow> bool" where
  "num_less NaN _ = False"
| "num_less _ NaN = False"
| "num_less _ NegInfinity = False"
| "num_less NegInfinity _ = True"
| "num_less Infinity _ = False"
| "num_less _ Infinity = True"
| "num_less (Finite a) (Finite b) = (a < b)"

fun num_max :: "number \<Rightarrow> number \<Rightarrow> number" where
  "num_max NaN _ = NaN"
| "num_max _ NaN = NaN"
| "num_max x y = (if num_less x y then y else x)"

text \<open>\<^verbatim>\<open>Math.max(...xs)\<close>: \<^verbatim>\<open>-Infinity\<close> when there is no argument.\<close>

definition mathMax :: "number list \<Rightarrow> number" where
  "mathMax xs = foldl num_max NegInfinity xs"

text \<open>Truthiness of a number: 0 and NaN are falsy, every other number is truthy.\<close>

fun truthyNum :: "number \<Rightarrow> bool" where
  "truthyNum NaN = False"
| "truthyNum (Finite a) = (a \<noteq> 0)"
| "truthyNum _ = True"

text \<open>
  Truthiness of a possibly undefined string: \<^verbatim>\<open>undefined\<close> and the empty string are
  falsy.
\<close>

fun truthyStr :: "string option \<Rightarrow> bool" where
  "truthyStr None = False"
| "truthyStr (Some s) = (s \<noteq> [])"

text \<open>Reading an array at an index: \<^verbatim>\<open>undefined\<close> out of range.\<close>

definition atIndex :: "'a list \<Rightarrow> nat \<Rightarrow> 'a option" where
  "atIndex xs i = (if i < length xs then Some (xs ! i) else None)"

section \<open>The padding calculator\<close>

text \<open>
  \<^verbatim>\<open>(examples[i] || '').split('\n').length\<close>, the expression of \<^verbatim>\<open>getPaddings\<close>
  (lines 158 to 160) and of \<^verbatim>\<open>getTotalPadding\<close> (lines 250 and 251).
\<close>

definition orEmpty :: "string option \<Rightarrow> string" where
  "orEmpty v = (if truthyStr v then the v else [])"

definition lineCount :: "string list \<Rightarrow> nat \<Rightarrow> int" where
  "lineCount examples i = int (length (splitString (orEmpty (atIndex examples i)) [newline]))"

text \<open>
  \<^verbatim>\<open>getTotalPadding\<close> (lines 239 to 256). Both arguments are arrays at every call, so
  \<^verbatim>\<open>sections1 ||= []\<close> changes nothing.
\<close>

definition getTotalPadding :: "string list \<Rightarrow> string list \<Rightarrow> int" where
  "getTotalPadding sections1 sections2 =
     foldl (\<lambda>sum i. sum + max (lineCount sections1 i) (lineCount sections2 i) + 2) 0
       [0 ..< max (length sections1) (length sections2)]"

text \<open>\<^verbatim>\<open>getPadding\<close> (lines 213 to 233), with its argument object as a record.\<close>

record paddingArgs =
  isLastSection :: bool
  comparisonA :: "string list"
  comparisonB :: "string list"
  lines :: int
  maxLines :: int

definition getPadding :: "paddingArgs \<Rightarrow> int" where
  "getPadding a =
     (let padding =
        (if isLastSection a
         then getTotalPadding (comparisonA a) (comparisonB a) - lines a - 2
         else if maxLines a > lines a then maxLines a - lines a
         else 0)
      in max padding 0)"

text \<open>
  \<^verbatim>\<open>getPaddings\<close> (lines 144 to 207). The three arrays it fills are the state of the
  loop; \<open>paddingsStep\<close> is the body of the \<^verbatim>\<open>forEach\<close> at index \<open>i\<close>. The result is the
  triple \<open>(scssPaddings, sassPaddings, cssPaddings)\<close>.
\<close>

type_synonym paddings = "int list \<times> int list \<times> int list"

definition isLast :: "string list \<Rightarrow> nat \<Rightarrow> bool" where
  "isLast examples i = (int i = int (length examples) - 1)"

definition paddingsStep ::
  "string list \<Rightarrow> string list \<Rightarrow> string list \<Rightarrow> paddings \<Rightarrow> nat \<Rightarrow> paddings" where
  "paddingsStep scssExamples sassExamples cssExamples acc i =
     (case acc of (scssPaddings, sassPaddings, cssPaddings) \<Rightarrow>
      let scssLines = lineCount scssExamples i;
          sassLines = lineCount sassExamples i;
          cssLines = lineCount cssExamples i;
          isLastScssSection = isLast scssExamples i;
          isLastSassSection = isLast sassExamples i;
          isLastCssSection = isLast cssExamples i;
          maxLines = max (if isLastScssSection then 0 else scssLines)
                       (max (if isLastSassSection then 0 else sassLines)
                            (if isLastCssSection then 0 else cssLines))
      in (scssPaddings @
            [getPadding \<lparr>isLastSection = isLastScssSection,
               comparisonA = drop i sassExamples, comparisonB = drop i cssExamples,
               lines = scssLines, maxLines = maxLines\<rparr>],
          sassPaddings @
            [getPadding \<lparr>isLastSection = isLastSassSection,
               comparisonA = drop i scssExamples, comparisonB = drop i cssExamples,
               lines = sassLines, maxLines = maxLines\<rparr>],
          cssPaddings @
            [getPadding \<lparr>isLastSection = isLastCssSection,
               comparisonA = drop i scssExamples, comparisonB = drop i sassExamples,
               lines = cssLines, maxLines = maxLines\<rparr>]))"

definition getPaddings :: "string list \<Rightarrow> string list \<Rightarrow> string list \<Rightarrow> paddings" where
  "getPaddings scssExamples sassExamples cssExamples =
     (let maxSections =
        max (length scssExamples) (max (length sassExamples) (length cssExamples))
      in foldl (paddingsStep scssExamples sassExamples cssExamples) ([], [], [])
           [0 ..< maxSections])"

section \<open>The split calculator\<close>

text \<open>
  \<^verbatim>\<open>getCanSplit\<close> (lines 258 to 280). The result is the triple
  \<open>(canSplit, maxSourceWidth, maxCSSWidth)\<close>.
\<close>

definition lineLengths :: "string list \<Rightarrow> number list" where
  "lineLengths examples =
     concat (map (\<lambda>source. map (\<lambda>line. Finite (of_nat (length line)))
                                (splitString source [newline])) examples)"

definition getCanSplit ::
  "string list \<Rightarrow> string list \<Rightarrow> string list \<Rightarrow> bool \<times> number \<times> number" where
  "getCanSplit scssExamples sassExamples cssExamples =
     (let exampleSourceLengths = lineLengths (scssExamples @ sassExamples);
          cssSourceLengths = lineLengths cssExamples;
          maxSourceWidth = mathMax exampleSourceLengths;
          maxCSSWidth = mathMax cssSourceLengths;
          canSplit = (truthyNum maxCSSWidth \<and>
                      num_less (num_add maxSourceWidth maxCSSWidth) (Finite 110))
      in (canSplit, maxSourceWidth, maxCSSWidth))"

text \<open>The split location (lines 118 to 126); \<open>None\<close> is \<^verbatim>\<open>null\<close>.\<close>

definition splitLocationOf :: "bool \<Rightarrow> number \<Rightarrow> number \<Rightarrow> number option" where
  "splitLocationOf canSplit maxSourceWidth maxCSSWidth =
     (if canSplit then
        (if num_less maxSourceWidth (Finite 55) \<and> num_less maxCSSWidth (Finite 55)
         then Some (Finite (0.5 * 100))
         else Some (num_add (Finite 0.5)
                (num_times (num_over (num_over (num_sub maxSourceWidth maxCSSWidth) 110.0) 2)
                   100)))
      else None)"

section \<open>The pipeline\<close>

text \<open>
  The selector, the parameter \<^verbatim>\<open>syntax\<close> of the source: a value of type
  \<open>sourceSyntax option\<close>, where \<open>None\<close> is \<^verbatim>\<open>null\<close>, the dual-syntax mode.
\<close>

datatype sourceSyntax = Sass | Scss

text \<open>The \<^verbatim>\<open>syntax\<close> option passed to the compiler.\<close>

datatype compilerSyntax = SyntaxIndented | SyntaxScss

text \<open>
  The two errors the function throws (\<open>MalformedInput\<close> with the contents its message
  quotes), and the failure of the compiler, which the function does not catch.
\<close>

datatype error =
    MalformedInput string
  | CannotAutoGenerate
  | CompilerFailure

record layout =
  scss :: "string list"
  sass :: "string list"
  css :: "string list"
  scssPaddings :: "int list"
  sassPaddings :: "int list"
  cssPaddings :: "int list"
  canSplit :: bool
  splitLocation :: "number option"

text \<open>Whether a result of the pipeline is the error of line 84.\<close>

fun isMalformedInput :: "error + layout \<Rightarrow> bool" where
  "isMalformedInput (Inl (MalformedInput _)) = True"
| "isMalformedInput _ = False"

text \<open>Line 67.\<close>

definition splitContents :: "string \<Rightarrow> string list" where
  "splitContents contents = splitString contents ''\<newline>===\<newline>''"

text \<open>
  The \<^verbatim>\<open>switch\<close> (lines 69 to 87): the triple
  \<open>(scssContents, sassContents, cssContents)\<close>, or the error of line 84.
\<close>

definition selectContents ::
  "string \<Rightarrow> sourceSyntax option \<Rightarrow> error + (string option \<times> string option \<times> string option)" where
  "selectContents contents syntax =
     (let blocks = splitContents contents in
      case syntax of
        Some Scss \<Rightarrow> Inr (atIndex blocks 0, None, atIndex blocks 1)
      | Some Sass \<Rightarrow> Inr (None, atIndex blocks 0, atIndex blocks 1)
      | None \<Rightarrow>
          (if \<not> truthyStr (atIndex blocks 1) then Inl (MalformedInput contents)
           else Inr (atIndex blocks 0, atIndex blocks 1, atIndex blocks 2)))"

text \<open>
  \<^verbatim>\<open>contents?.split('\n---\n').map((str) => str.trim()) ?? []\<close> (lines 89 to 92 and 104
  to 105).
\<close>

definition examplesOf :: "string option \<Rightarrow> string list" where
  "examplesOf contents =
     (case contents of
        None \<Rightarrow> []
      | Some s \<Rightarrow> map trim (splitString s ''\<newline>---\<newline>''))"

text \<open>
  Lines 94 to 102. The compiler is a parameter: \<open>compileString source syn\<close> is the \<^verbatim>\<open>css\<close>
  of what \<^verbatim>\<open>sass.compileString\<close> returns, \<open>None\<close> when it throws. The second component
  is the list of the calls made to it, in order.
\<close>

type_synonym compiler = "string \<Rightarrow> compilerSyntax \<Rightarrow> string option"

definition autogenSections ::
  "string option \<Rightarrow> string list \<Rightarrow> string list \<Rightarrow> string list" where
  "autogenSections scssContents scssExamples sassExamples =
     (if truthyStr scssContents then scssExamples else sassExamples)"

definition resolveCss ::
  "compiler \<Rightarrow> bool \<Rightarrow> sourceSyntax option \<Rightarrow> string option \<Rightarrow> string list \<Rightarrow> string list \<Rightarrow>
   string option \<Rightarrow> (error + string option) \<times> (string \<times> compilerSyntax) list" where
  "resolveCss compileString autogenCSS syntax scssContents scssExamples sassExamples
     cssContents =
     (if \<not> truthyStr cssContents \<and> autogenCSS then
        (let sections = autogenSections scssContents scssExamples sassExamples in
         if length sections \<noteq> 1 then (Inl CannotAutoGenerate, [])
         else
           (let source = sections ! 0;
                syn = (if syntax = Some Sass then SyntaxIndented else SyntaxScss)
            in case compileString source syn of
                 None \<Rightarrow> (Inl CompilerFailure, [(source, syn)])
               | Some compiled \<Rightarrow> (Inr (Some compiled), [(source, syn)])))
      else (Inr cssContents, []))"

text \<open>Lines 104 to 137.\<close>

definition assemble :: "string list \<Rightarrow> string list \<Rightarrow> string list \<Rightarrow> layout" where
  "assemble scssExamples sassExamples cssExamples =
     (case getPaddings scssExamples sassExamples cssExamples of
        (scssPads, sassPads, cssPads) \<Rightarrow>
      case getCanSplit scssExamples sassExamples cssExamples of
        (split, maxSourceWidth, maxCSSWidth) \<Rightarrow>
      \<lparr>scss = scssExamples, sass = sassExamples, css = cssExamples,
       scssPaddings = scssPads, sassPaddings = sassPads, cssPaddings = cssPads,
       canSplit = split,
       splitLocation = splitLocationOf split maxSourceWidth maxCSSWidth\<rparr>)"

text \<open>
  \<^verbatim>\<open>generateCodeExample\<close> (lines 62 to 138): the layout or the error, and the calls made
  to the compiler.
\<close>

definition generateCodeExample ::
  "compiler \<Rightarrow> string \<Rightarrow> bool \<Rightarrow> sourceSyntax option \<Rightarrow>
   (error + layout) \<times> (string \<times> compilerSyntax) list" where
  "generateCodeExample compileString contents autogenCSS syntax =
     (case selectContents contents syntax of
        Inl e \<Rightarrow> (Inl e, [])
      | Inr (scssContents, sassContents, cssContents) \<Rightarrow>
          (let scssExamples = examplesOf scssContents;
               sassExamples = examplesOf sassContents
           in case resolveCss compileString autogenCSS syntax scssContents scssExamples
                     sassExamples cssContents of
                (Inl e, calls) \<Rightarrow> (Inl e, calls)
              | (Inr cssContents', calls) \<Rightarrow>
                  (Inr (assemble scssExamples sassExamples (examplesOf cssContents')),
                   calls)))"

section \<open>Facts about splitting\<close>

lemma splitFrom_not_Nil: "splitFrom sep s \<noteq> []"
  by (induction sep s rule: splitFrom.induct) (auto split: list.splits)

lemma splitFrom_skip:
  "take (length sep) (c # cs) \<noteq> sep \<Longrightarrow>
   splitFrom sep (c # cs) = (c # hd (splitFrom sep cs)) # tl (splitFrom sep cs)"
  using splitFrom_not_Nil [of sep cs] by (cases "splitFrom sep cs") auto

lemma length_splitFrom_newline:
  "length (splitFrom [newline] s) = Suc (count_list s newline)"
proof (induction s)
  case Nil
  show ?case by simp
next
  case (Cons c cs)
  show ?case
  proof (cases "c = newline")
    case True
    then show ?thesis using Cons by simp
  next
    case False
    then have "take (length [newline]) (c # cs) \<noteq> [newline]" by simp
    from splitFrom_skip [OF this] have
      "length (splitFrom [newline] (c # cs)) = Suc (length (tl (splitFrom [newline] cs)))"
      by simp
    also have "\<dots> = length (splitFrom [newline] cs)"
      using splitFrom_not_Nil [of "[newline]" cs] by (cases "splitFrom [newline] cs") auto
    finally show ?thesis using Cons False by simp
  qed
qed

lemma splitFrom_no_sublist:
  "\<not> sublist sep s \<Longrightarrow> splitFrom sep s = [s]"
proof (induction s)
  case Nil
  show ?case by simp
next
  case (Cons c cs)
  have nomatch: "take (length sep) (c # cs) \<noteq> sep"
  proof
    assume "take (length sep) (c # cs) = sep"
    then have "prefix sep (c # cs)" by (metis take_is_prefix)
    then show False using Cons.prems by (simp add: sublist_Cons_right)
  qed
  have "\<not> sublist sep cs" using Cons.prems by (simp add: sublist_Cons_right)
  then have "splitFrom sep cs = [cs]" by (rule Cons.IH)
  then show ?case using splitFrom_skip [OF nomatch] by simp
qed

lemma splitFrom_sublist:
  "sep \<noteq> [] \<Longrightarrow> sublist sep s \<Longrightarrow> 2 \<le> length (splitFrom sep s)"
proof (induction s)
  case Nil
  then show ?case by simp
next
  case (Cons c cs)
  show ?case
  proof (cases "take (length sep) (c # cs) = sep")
    case True
    then show ?thesis
      using splitFrom_not_Nil [of sep "drop (length sep - 1) cs"]
      by (cases "splitFrom sep (drop (length sep - 1) cs)") auto
  next
    case False
    then have "\<not> prefix sep (c # cs)"
      by (metis prefix_def append_eq_conv_conj)
    then have "sublist sep cs" using Cons.prems by (simp add: sublist_Cons_right)
    then have "2 \<le> length (splitFrom sep cs)" using Cons.IH Cons.prems by simp
    then show ?thesis using splitFrom_skip [OF False]
      by (cases "splitFrom sep cs") auto
  qed
qed

section \<open>Facts about the padding calculator\<close>

lemma lineCount_present:
  "i < length examples \<Longrightarrow>
   lineCount examples i = 1 + int (count_list (examples ! i) newline)"
  by (cases "examples ! i = []")
     (simp_all add: lineCount_def orEmpty_def atIndex_def splitString_def
        length_splitFrom_newline)

lemma lineCount_absent: "length examples \<le> i \<Longrightarrow> lineCount examples i = 1"
  by (simp add: lineCount_def orEmpty_def atIndex_def splitString_def)

lemma lineCount_pos: "1 \<le> lineCount examples i"
  by (cases "i < length examples") (simp_all add: lineCount_present lineCount_absent)

lemma lineCount_drop: "lineCount (drop i examples) j = lineCount examples (i + j)"
proof -
  have "atIndex (drop i examples) j = atIndex examples (i + j)"
    by (auto simp: atIndex_def)
  then show ?thesis by (simp add: lineCount_def)
qed

lemma foldl_plus:
  "foldl (\<lambda>sum i. sum + g i + 2) (s :: int) xs = s + sum_list (map (\<lambda>i. g i + 2) xs)"
  by (induction xs arbitrary: s) simp_all

lemma getTotalPadding_sum:
  "getTotalPadding sections1 sections2 =
     (\<Sum>j = 0 ..< max (length sections1) (length sections2).
        max (lineCount sections1 j) (lineCount sections2 j) + 2)"
  unfolding getTotalPadding_def foldl_plus
  by (simp add: interv_sum_list_conv_sum_set_nat)

lemma getTotalPadding_drop:
  "getTotalPadding (drop i xs) (drop i ys) =
     (\<Sum>j = i ..< max (length xs) (length ys).
        max (lineCount xs j) (lineCount ys j) + 2)"
proof -
  let ?m = "max (length xs) (length ys)"
  let ?f = "\<lambda>j. max (lineCount xs j) (lineCount ys j) + 2"
  have len: "max (length (drop i xs)) (length (drop i ys)) = ?m - i" by auto
  have "getTotalPadding (drop i xs) (drop i ys) = (\<Sum>j = 0 ..< ?m - i. ?f (j + i))"
    unfolding getTotalPadding_sum len by (simp add: lineCount_drop add.commute)
  also have "\<dots> = (\<Sum>j = 0 + i ..< (?m - i) + i. ?f j)"
    by (rule sum.shift_bounds_nat_ivl [symmetric])
  also have "\<dots> = (\<Sum>j = i ..< ?m. ?f j)"
  proof (cases "i \<le> ?m")
    case True
    then show ?thesis by simp
  next
    case False
    then have e: "?m - i + i = i" and l: "?m \<le> i" by linarith+
    show ?thesis unfolding e using l by simp
  qed
  finally show ?thesis .
qed

lemma foldl_paddingsStep:
  "foldl (paddingsStep a b c) (p, q, r) is =
     (p @ map (\<lambda>i. hd (fst (paddingsStep a b c ([], [], []) i))) is,
      q @ map (\<lambda>i. hd (fst (snd (paddingsStep a b c ([], [], []) i)))) is,
      r @ map (\<lambda>i. hd (snd (snd (paddingsStep a b c ([], [], []) i)))) is)"
proof (induction "is" arbitrary: p q r)
  case Nil
  show ?case by simp
next
  case (Cons i "is")
  have step: "paddingsStep a b c (p, q, r) i =
      (p @ [hd (fst (paddingsStep a b c ([], [], []) i))],
       q @ [hd (fst (snd (paddingsStep a b c ([], [], []) i)))],
       r @ [hd (snd (snd (paddingsStep a b c ([], [], []) i)))])"
    by (simp add: paddingsStep_def Let_def split del: if_split)
  show ?case unfolding foldl_Cons step Cons.IH by simp
qed

lemma getPaddings_map:
  "getPaddings a b c =
     (map (\<lambda>i. hd (fst (paddingsStep a b c ([], [], []) i)))
        [0 ..< max (length a) (max (length b) (length c))],
      map (\<lambda>i. hd (fst (snd (paddingsStep a b c ([], [], []) i))))
        [0 ..< max (length a) (max (length b) (length c))],
      map (\<lambda>i. hd (snd (snd (paddingsStep a b c ([], [], []) i))))
        [0 ..< max (length a) (max (length b) (length c))])"
  by (simp add: getPaddings_def Let_def foldl_paddingsStep)

lemma getPadding_last:
  "getPadding \<lparr>isLastSection = True, comparisonA = xs, comparisonB = ys,
      lines = n, maxLines = m\<rparr> = max (getTotalPadding xs ys - n - 2) 0"
  by (simp add: getPadding_def)

lemma tail_padding:
  assumes "own \<noteq> []" and "length own < max (length xs) (length ys)"
  shows "(\<Sum>j = length own ..< max (length xs) (length ys).
            max (lineCount xs j) (lineCount ys j) + 2)
         \<le> max (getTotalPadding (drop (length own - 1) xs) (drop (length own - 1) ys)
                  - lineCount own (length own - 1) - 2) 0
             + lineCount own (length own - 1)"
proof -
  let ?m = "max (length xs) (length ys)"
  let ?f = "\<lambda>j. max (lineCount xs j) (lineCount ys j) + 2"
  let ?i = "length own - 1"
  have i: "Suc ?i = length own" using assms(1) by (cases own) simp_all
  have "(\<Sum>j = ?i ..< ?m. ?f j) = ?f ?i + (\<Sum>j = Suc ?i ..< ?m. ?f j)"
    using assms(2) i by (intro sum.atLeast_Suc_lessThan) linarith
  moreover have "1 \<le> lineCount xs ?i" by (rule lineCount_pos)
  ultimately have "(\<Sum>j = length own ..< ?m. ?f j) \<le> (\<Sum>j = ?i ..< ?m. ?f j) - 2"
    unfolding i by linarith
  then show ?thesis unfolding getTotalPadding_drop by linarith
qed

text \<open>
  The same bound from the last index of the variant on: with the 2 lines of space of the
  last section itself, the padded section is as tall as the other variants from that
  index on.
\<close>

lemma tail_padding_from_last_index:
  "(\<Sum>j = i ..< max (length xs) (length ys).
      max (lineCount xs j) (lineCount ys j) + 2)
   \<le> max (getTotalPadding (drop i xs) (drop i ys) - n - 2) 0 + n + 2"
  unfolding getTotalPadding_drop by linarith

lemma paddingsStep_last:
  "isLast a i \<Longrightarrow>
   hd (fst (paddingsStep a b c ([], [], []) i)) =
     max (getTotalPadding (drop i b) (drop i c) - lineCount a i - 2) 0"
  "isLast b i \<Longrightarrow>
   hd (fst (snd (paddingsStep a b c ([], [], []) i))) =
     max (getTotalPadding (drop i a) (drop i c) - lineCount b i - 2) 0"
  "isLast c i \<Longrightarrow>
   hd (snd (snd (paddingsStep a b c ([], [], []) i))) =
     max (getTotalPadding (drop i a) (drop i b) - lineCount c i - 2) 0"
  by (simp_all add: paddingsStep_def Let_def getPadding_def split del: if_split)

lemma getPaddings_nth:
  assumes "i < max (length a) (max (length b) (length c))"
  shows "fst (getPaddings a b c) ! i = hd (fst (paddingsStep a b c ([], [], []) i))"
    and "fst (snd (getPaddings a b c)) ! i =
           hd (fst (snd (paddingsStep a b c ([], [], []) i)))"
    and "snd (snd (getPaddings a b c)) ! i =
           hd (snd (snd (paddingsStep a b c ([], [], []) i)))"
  using assms unfolding getPaddings_map by simp_all

lemma isLast_last: "own \<noteq> [] \<Longrightarrow> isLast own (length own - 1)"
  by (cases own) (simp_all add: isLast_def)

lemma last_index_in_range:
  "own \<noteq> [] \<Longrightarrow> length own - 1 < max (length own) n"
  "own \<noteq> [] \<Longrightarrow> length own - 1 < max n (length own)"
  "own \<noteq> [] \<Longrightarrow> length own - 1 < max m (max (length own) n)"
  "own \<noteq> [] \<Longrightarrow> length own - 1 < max m (max n (length own))"
  by (cases own; simp)+

section \<open>Facts about the pipeline\<close>

lemmas parse_defs =
  generateCodeExample_def selectContents_def splitContents_def splitString_def
  examplesOf_def trim_def isWhiteSpace_def resolveCss_def autogenSections_def
  atIndex_def Let_def

lemmas padding_defs =
  getPaddings_def paddingsStep_def getPadding_def getTotalPadding_def
  lineCount_present lineCount_absent isLast_def newline_def Let_def

lemmas split_defs =
  getCanSplit_def lineLengths_def mathMax_def splitLocationOf_def num_sub_def
  splitString_def newline_def Let_def

lemma assemble_fields:
  "scss (assemble a b c) = a"
  "sass (assemble a b c) = b"
  "css (assemble a b c) = c"
  "scssPaddings (assemble a b c) = fst (getPaddings a b c)"
  "sassPaddings (assemble a b c) = fst (snd (getPaddings a b c))"
  "cssPaddings (assemble a b c) = snd (snd (getPaddings a b c))"
  "canSplit (assemble a b c) = fst (getCanSplit a b c)"
  "splitLocation (assemble a b c) =
     splitLocationOf (fst (getCanSplit a b c)) (fst (snd (getCanSplit a b c)))
       (snd (snd (getCanSplit a b c)))"
  by (simp_all add: assemble_def split: prod.splits)

lemma generateCodeExample_Inl:
  "selectContents contents syntax = Inl e \<Longrightarrow>
   generateCodeExample compileString contents autogenCSS syntax = (Inl e, [])"
  by (simp add: generateCodeExample_def)

lemma generateCodeExample_Inr:
  "selectContents contents syntax = Inr (scssContents, sassContents, cssContents) \<Longrightarrow>
   generateCodeExample compileString contents autogenCSS syntax =
     (case resolveCss compileString autogenCSS syntax scssContents
             (examplesOf scssContents) (examplesOf sassContents) cssContents of
        (Inl e, calls) \<Rightarrow> (Inl e, calls)
      | (Inr cssContents', calls) \<Rightarrow>
          (Inr (assemble (examplesOf scssContents) (examplesOf sassContents)
                  (examplesOf cssContents')), calls))"
  by (simp add: generateCodeExample_def Let_def)

lemma generateCodeExample_layout:
  assumes "fst (generateCodeExample compileString contents autogenCSS syntax) = Inr L"
  shows "L = assemble (scss L) (sass L) (css L)"
proof (cases "selectContents contents syntax")
  case (Inl e)
  then show ?thesis using assms by (simp add: generateCodeExample_Inl)
next
  case (Inr t)
  obtain x y z where t: "t = (x, y, z)" by (cases t) auto
  obtain r calls where
    r: "resolveCss compileString autogenCSS syntax x (examplesOf x) (examplesOf y) z =
          (r, calls)"
    by (cases "resolveCss compileString autogenCSS syntax x (examplesOf x) (examplesOf y) z")
      auto
  have g: "generateCodeExample compileString contents autogenCSS syntax =
      (case (r, calls) of
         (Inl e, calls) \<Rightarrow> (Inl e, calls)
       | (Inr v, calls) \<Rightarrow>
           (Inr (assemble (examplesOf x) (examplesOf y) (examplesOf v)), calls))"
  proof -
    have "selectContents contents syntax = Inr (x, y, z)" using Inr t by simp
    from generateCodeExample_Inr [OF this] r show ?thesis by simp
  qed
  show ?thesis
  proof (cases r)
    case (Inl e)
    then show ?thesis using assms g by simp
  next
    case (Inr v)
    then have "L = assemble (examplesOf x) (examplesOf y) (examplesOf v)"
      using assms g by simp
    then show ?thesis by (simp add: assemble_fields)
  qed
qed

lemma resolveCss_not_malformed:
  "fst (resolveCss compileString autogenCSS syntax scssContents scssExamples sassExamples
          cssContents) \<noteq> Inl (MalformedInput m)"
  by (simp add: resolveCss_def Let_def split: option.splits)

lemma generateCodeExample_not_malformed:
  assumes "selectContents contents syntax = Inr t"
  shows "\<not> isMalformedInput (fst (generateCodeExample compileString contents autogenCSS syntax))"
proof -
  obtain x y z where t: "t = (x, y, z)" by (cases t) auto
  obtain r calls where
    r: "resolveCss compileString autogenCSS syntax x (examplesOf x) (examplesOf y) z =
          (r, calls)"
    by (cases "resolveCss compileString autogenCSS syntax x (examplesOf x) (examplesOf y) z")
      auto
  have sel: "selectContents contents syntax = Inr (x, y, z)" using assms t by simp
  have nm: "r \<noteq> Inl (MalformedInput m)" for m
    using resolveCss_not_malformed
      [of compileString autogenCSS "syntax" x "examplesOf x" "examplesOf y" z m] r
    by simp
  show ?thesis
  proof (cases r)
    case (Inl e)
    then show ?thesis
      using nm generateCodeExample_Inr [OF sel] r by (cases e) simp_all
  next
    case (Inr v)
    then show ?thesis using generateCodeExample_Inr [OF sel] r by simp
  qed
qed

lemma splitContents_no_separator:
  "\<not> sublist ''\<newline>===\<newline>'' contents \<Longrightarrow> splitContents contents = [contents]"
  by (simp add: splitContents_def splitString_def splitFrom_no_sublist)

lemma resolveCss_autogen:
  assumes "autogenCSS"
  shows "resolveCss compileString autogenCSS syntax scssContents scssExamples sassExamples
           None =
     (if length (autogenSections scssContents scssExamples sassExamples) \<noteq> 1
      then (Inl CannotAutoGenerate, [])
      else (case compileString
                   (autogenSections scssContents scssExamples sassExamples ! 0)
                   (if syntax = Some Sass then SyntaxIndented else SyntaxScss) of
              None \<Rightarrow>
                (Inl CompilerFailure,
                 [(autogenSections scssContents scssExamples sassExamples ! 0,
                   if syntax = Some Sass then SyntaxIndented else SyntaxScss)])
            | Some compiled \<Rightarrow>
                (Inr (Some compiled),
                 [(autogenSections scssContents scssExamples sassExamples ! 0,
                   if syntax = Some Sass then SyntaxIndented else SyntaxScss)])))"
  using assms unfolding resolveCss_def Let_def by (simp split del: if_split)

lemma mathMax_lineLengths_cases:
  "mathMax (lineLengths examples) = NegInfinity \<or>
   (\<exists>a. mathMax (lineLengths examples) = Finite a)"
proof -
  have "foldl num_max acc (map (\<lambda>n. Finite (of_nat n)) ns) = NegInfinity \<or>
      (\<exists>a. foldl num_max acc (map (\<lambda>n. Finite (of_nat n)) ns) = Finite a)"
    if "acc = NegInfinity \<or> (\<exists>a. acc = Finite a)" for acc and ns :: "nat list"
    using that
  proof (induction ns arbitrary: acc)
    case Nil
    then show ?case by simp
  next
    case (Cons n ns)
    have "num_max acc (Finite (of_nat n)) = NegInfinity \<or>
        (\<exists>a. num_max acc (Finite (of_nat n)) = Finite a)"
      using Cons.prems by (auto split: if_splits)
    from Cons.IH [OF this] show ?case by simp
  qed
  moreover have "lineLengths examples =
      map (\<lambda>n. Finite (of_nat n))
        (concat (map (\<lambda>source. map length (splitString source [newline])) examples))"
    by (simp add: lineLengths_def map_concat comp_def)
  ultimately show ?thesis by (simp add: mathMax_def)
qed

lemma splitFrom_last:
  assumes "sep \<noteq> []"
  shows "splitFrom sep s = [s] \<or>
         (2 \<le> length (splitFrom sep s) \<and> (\<exists>u. s = u @ sep @ last (splitFrom sep s)))"
proof (induction s rule: length_induct)
  case (1 s)
  show ?case
  proof (cases s)
    case Nil
    then show ?thesis by simp
  next
    case (Cons c cs)
    show ?thesis
    proof (cases "take (length sep) (c # cs) = sep")
      case True
      let ?rest = "drop (length sep - 1) cs"
      have split: "splitFrom sep s = [] # splitFrom sep ?rest" using Cons True by simp
      have "drop (length sep) (c # cs) = ?rest" using assms by (cases sep) simp_all
      then have s: "s = sep @ ?rest"
        using Cons True append_take_drop_id [of "length sep" "c # cs"] by simp
      have "length ?rest < length s" using Cons by simp
      with 1 have "splitFrom sep ?rest = [?rest] \<or>
          (2 \<le> length (splitFrom sep ?rest) \<and>
           (\<exists>u. ?rest = u @ sep @ last (splitFrom sep ?rest)))"
        by blast
      then show ?thesis
      proof
        assume "splitFrom sep ?rest = [?rest]"
        then have "s = [] @ sep @ last (splitFrom sep s)" using s split by simp
        then show ?thesis using split splitFrom_not_Nil [of sep ?rest]
          by (metis One_nat_def Suc_1 Suc_leI length_Cons length_greater_0_conv not_less_eq_eq)
      next
        assume "2 \<le> length (splitFrom sep ?rest) \<and>
           (\<exists>u. ?rest = u @ sep @ last (splitFrom sep ?rest))"
        then obtain u where u: "?rest = u @ sep @ last (splitFrom sep ?rest)"
          and l: "2 \<le> length (splitFrom sep ?rest)" by blast
        have "last (splitFrom sep s) = last (splitFrom sep ?rest)"
          using split splitFrom_not_Nil [of sep ?rest] by simp
        then have "s = (sep @ u) @ sep @ last (splitFrom sep s)" using s u by simp
        then show ?thesis using split l by (metis le_SucI length_Cons)
      qed
    next
      case False
      have split: "splitFrom sep s = (c # hd (splitFrom sep cs)) # tl (splitFrom sep cs)"
        using Cons splitFrom_skip [OF False] by simp
      have "length cs < length s" using Cons by simp
      with 1 have "splitFrom sep cs = [cs] \<or>
          (2 \<le> length (splitFrom sep cs) \<and>
           (\<exists>u. cs = u @ sep @ last (splitFrom sep cs)))"
        by blast
      then show ?thesis
      proof
        assume "splitFrom sep cs = [cs]"
        then show ?thesis using split Cons by simp
      next
        assume "2 \<le> length (splitFrom sep cs) \<and>
           (\<exists>u. cs = u @ sep @ last (splitFrom sep cs))"
        then obtain u where u: "cs = u @ sep @ last (splitFrom sep cs)"
          and l: "2 \<le> length (splitFrom sep cs)" by blast
        from l have tl: "tl (splitFrom sep cs) \<noteq> []"
          by (cases "splitFrom sep cs") auto
        then have "last (splitFrom sep s) = last (splitFrom sep cs)"
          using split by (cases "splitFrom sep cs") auto
        then have "s = (c # u) @ sep @ last (splitFrom sep s)" using Cons u by simp
        moreover have "2 \<le> length (splitFrom sep s)"
          using split l by (cases "splitFrom sep cs") auto
        ultimately show ?thesis by blast
      qed
    qed
  qed
qed

lemma hd_splitFrom_skip:
  "take (length sep) (c # cs) \<noteq> sep \<Longrightarrow>
   hd (splitFrom sep (c # cs)) = c # hd (splitFrom sep cs)"
  using splitFrom_skip [of sep c cs] by (simp del: splitFrom.simps)

lemma suffix_after_separator:
  assumes "suffix [x, y, z] s" and "s = u @ sep' @ [n] @ b"
    and "x \<noteq> n" and "y \<noteq> n" and "z \<noteq> n"
  shows "suffix [x, y, z] b"
proof -
  from assms(1) obtain p where p: "s = p @ [x, y, z]" by (auto simp: suffix_def)
  have "rev s = rev b @ n # rev sep' @ rev u" using assms(2) by simp
  moreover have "rev s = z # y # x # rev p" using p by simp
  ultimately have e: "rev b @ n # rev sep' @ rev u = z # y # x # rev p" by simp
  obtain q where "rev b = z # y # x # q"
  proof (cases "rev b")
    case Nil
    then show ?thesis using e assms(5) by simp
  next
    case (Cons b1 r1)
    show ?thesis
    proof (cases r1)
      case Nil
      then show ?thesis using e Cons assms(4) by simp
    next
      case (Cons b2 r2)
      note c2 = Cons
      show ?thesis
      proof (cases r2)
        case Nil
        then show ?thesis using e \<open>rev b = b1 # r1\<close> c2 assms(3) by simp
      next
        case (Cons b3 r3)
        then show ?thesis using e \<open>rev b = b1 # r1\<close> c2 that by simp
      qed
    qed
  qed
  then have "rev (rev b) = rev (z # y # x # q)" by simp
  then have "b = rev q @ [x, y, z]" by simp
  then show ?thesis by (simp add: suffix_def)
qed

lemma dropWhile_keeps_suffix:
  "p \<noteq> [] \<Longrightarrow> \<not> isWhiteSpace (hd p) \<Longrightarrow>
   \<exists>w. dropWhile isWhiteSpace (q @ p) = w @ p"
  by (cases p) (auto simp: dropWhile_append)

lemma dropWhile_keeps_all:
  "p \<noteq> [] \<Longrightarrow> \<not> isWhiteSpace (hd p) \<Longrightarrow> dropWhile isWhiteSpace (p @ q) = p @ q"
  by (cases p) auto

lemma trim_keeps_prefix:
  assumes "p \<noteq> []" and "\<not> isWhiteSpace (hd p)" and "\<not> isWhiteSpace (last p)"
    and "prefix p s"
  shows "prefix p (trim s)"
proof -
  from assms(4) obtain q where s: "s = p @ q" by (auto simp: prefix_def)
  have r: "rev p \<noteq> []" "\<not> isWhiteSpace (hd (rev p))"
    using assms(1,3) by (simp_all add: hd_rev)
  from dropWhile_keeps_suffix [of "rev p" "rev q", OF r] obtain w where
    "dropWhile isWhiteSpace (rev q @ rev p) = w @ rev p" by blast
  then have "trim s = p @ rev w"
    using s dropWhile_keeps_all [of p q, OF assms(1,2)] by (simp add: trim_def)
  then show ?thesis by simp
qed

lemma trim_keeps_suffix:
  assumes "p \<noteq> []" and "\<not> isWhiteSpace (hd p)" and "\<not> isWhiteSpace (last p)"
    and "suffix p s"
  shows "suffix p (trim s)"
proof -
  from assms(4) obtain q where s: "s = q @ p" by (auto simp: suffix_def)
  from dropWhile_keeps_suffix [of p q, OF assms(1,2)] obtain w where
    w: "dropWhile isWhiteSpace (q @ p) = w @ p" by blast
  have r: "rev p \<noteq> []" "\<not> isWhiteSpace (hd (rev p))"
    using assms(1,3) by (simp_all add: hd_rev)
  from dropWhile_keeps_all [of "rev p" "rev w", OF r] have "trim s = w @ p"
    using s w by (simp add: trim_def)
  then show ?thesis by (simp add: suffix_def)
qed

lemma hd_splitFrom_line:
  assumes "x \<noteq> n"
  shows "prefix [x, x, x] (hd (splitFrom (n # sep') (x # x # x # rest)))"
proof -
  have "take (length (n # sep')) (x # cs) \<noteq> n # sep'" for cs
    using assms by auto
  then have "hd (splitFrom (n # sep') (x # cs)) = x # hd (splitFrom (n # sep') cs)" for cs
    by (rule hd_splitFrom_skip)
  then show ?thesis by (simp del: splitFrom.simps)
qed

lemma last_splitFrom_line:
  assumes "suffix [x, x, x] sep'" and "x \<noteq> n"
  shows "suffix [x, x, x] (last (splitFrom (sep' @ [n]) (rest @ sep')))"
proof -
  let ?s = "rest @ sep'"
  have s: "suffix [x, x, x] ?s" using assms(1) by (simp add: suffix_appendI)
  from splitFrom_last [of "sep' @ [n]" ?s]
  consider "splitFrom (sep' @ [n]) ?s = [?s]"
    | u where "?s = u @ (sep' @ [n]) @ last (splitFrom (sep' @ [n]) ?s)"
    by auto
  then show ?thesis
  proof cases
    case 1
    then show ?thesis using s by simp
  next
    case 2
    then have "?s = u @ sep' @ [n] @ last (splitFrom (sep' @ [n]) ?s)"
      by simp
    from suffix_after_separator [OF s this assms(2) assms(2) assms(2)] show ?thesis .
  qed
qed

lemma length_splitFrom_one:
  "sep \<noteq> [] \<Longrightarrow> (length (splitFrom sep s) = 1) = (\<not> sublist sep s)"
  using splitFrom_sublist [of sep s] splitFrom_no_sublist [of sep s] by fastforce

section \<open>The claims\<close>

text \<open>
  C3, as the code has it. Every layout the pipeline returns has three padding tables of
  one length, the largest of the lengths of its three section sets: the loop of
  \<^verbatim>\<open>getPaddings\<close> pushes one entry to each table at every index below that maximum. A
  table is as long as its own section set exactly when no other set is longer.
\<close>

theorem paddings_length_is_max_sections:
  assumes "fst (generateCodeExample compileString contents autogenCSS syntax) = Inr L"
  shows "length (scssPaddings L) =
           max (length (scss L)) (max (length (sass L)) (length (css L))) \<and>
         length (sassPaddings L) =
           max (length (scss L)) (max (length (sass L)) (length (css L))) \<and>
         length (cssPaddings L) =
           max (length (scss L)) (max (length (sass L)) (length (css L)))"
proof -
  from assms have L: "L = assemble (scss L) (sass L) (css L)"
    by (rule generateCodeExample_layout)
  have p: "scssPaddings L = fst (getPaddings (scss L) (sass L) (css L))"
    using L assemble_fields(4) by metis
  have q: "sassPaddings L = fst (snd (getPaddings (scss L) (sass L) (css L)))"
    using L assemble_fields(5) by metis
  have r: "cssPaddings L = snd (snd (getPaddings (scss L) (sass L) (css L)))"
    using L assemble_fields(6) by metis
  show ?thesis unfolding p q r by (simp add: getPaddings_map)
qed

theorem paddings_length_is_max_sections_witness:
  "fst (generateCodeExample (\<lambda>_ _. None)
      ''a\<newline>---\<newline>b\<newline>===\<newline>c'' False None) =
     Inr (assemble [''a'', ''b''] [''c''] []) \<and>
   length (scssPaddings (assemble [''a'', ''b''] [''c''] [])) = 2 \<and>
   length (sassPaddings (assemble [''a'', ''b''] [''c''] [])) = 2 \<and>
   length (cssPaddings (assemble [''a'', ''b''] [''c''] [])) = 2"
proof -
  have e: "fst (generateCodeExample (\<lambda>_ _. None)
             ''a\<newline>---\<newline>b\<newline>===\<newline>c'' False None) =
           Inr (assemble [''a'', ''b''] [''c''] [])"
    by (simp add: parse_defs)
  show ?thesis
    using paddings_length_is_max_sections [OF e] by (simp add: e assemble_fields)
qed

text \<open>
  C3, as the claim states it, fails: a dual-syntax input with one section in each syntax
  and no compiled output has an empty compiled-output section set and a compiled-output
  padding table of length 1.
\<close>

theorem paddings_length_counterexample:
  "fst (generateCodeExample (\<lambda>_ _. None) ''a\<newline>===\<newline>b'' False None) =
     Inr (assemble [''a''] [''b''] []) \<and>
   css (assemble [''a''] [''b''] []) = [] \<and>
   cssPaddings (assemble [''a''] [''b''] []) = [0] \<and>
   length (cssPaddings (assemble [''a''] [''b''] [])) \<noteq>
     length (css (assemble [''a''] [''b''] []))"
proof -
  have "fst (generateCodeExample (\<lambda>_ _. None) ''a\<newline>===\<newline>b'' False None) =
      Inr (assemble [''a''] [''b''] [])"
    by (simp add: parse_defs)
  moreover have "getPaddings [''a''] [''b''] [] = ([0], [0], [0])"
    by (simp add: padding_defs split del: if_split)
  ultimately show ?thesis by (simp add: assemble_fields)
qed

text \<open>
  C4, as the code has it. The line count of a section is one more than the number of
  newline characters in it, that is, the number of its newline-delimited lines. Where a
  variant has no section at the index the count is 1, not 0: the code counts the lines of
  the empty string, which \<^verbatim>\<open>split\<close> turns into one empty line. \<^verbatim>\<open>getTotalPadding\<close> sums
  the same counts.
\<close>

theorem lineCount_is_newlines_plus_one:
  "lineCount examples i =
     (if i < length examples then 1 + int (count_list (examples ! i) newline) else 1) \<and>
   getTotalPadding sections1 sections2 =
     (\<Sum>j = 0 ..< max (length sections1) (length sections2).
        max (if j < length sections1 then 1 + int (count_list (sections1 ! j) newline) else 1)
            (if j < length sections2 then 1 + int (count_list (sections2 ! j) newline) else 1)
        + 2)"
proof -
  have lc: "lineCount xs j =
      (if j < length xs then 1 + int (count_list (xs ! j) newline) else 1)" for xs j
    by (simp add: lineCount_present lineCount_absent)
  show ?thesis unfolding getTotalPadding_sum by (simp only: lc [symmetric] simp_thms)
qed

text \<open>
  C4, as the claim states it, fails: a variant with one section has no section at index
  1, and its line count there is 1.
\<close>

theorem lineCount_absent_counterexample:
  "lineCount [''a''] 1 = 1 \<and> lineCount [''a''] 1 \<noteq> 0"
  by (simp add: lineCount_absent)

text \<open>
  C6. A variant that has a last section and fewer sections than the longer of the two
  other variants: the padding of its last section plus the line count of that section is
  at least the sum, over the indices from its length up to the end of the longer other
  variant, of the larger line count of the two other variants at the index plus 2. The
  three conjuncts are the three variants.
\<close>

theorem tail_padding_covers_remaining_sections:
  "(scssExamples \<noteq> [] \<and>
    length scssExamples < max (length sassExamples) (length cssExamples) \<longrightarrow>
    (\<Sum>j = length scssExamples ..< max (length sassExamples) (length cssExamples).
       max (lineCount sassExamples j) (lineCount cssExamples j) + 2)
    \<le> fst (getPaddings scssExamples sassExamples cssExamples) ! (length scssExamples - 1)
       + lineCount scssExamples (length scssExamples - 1)) \<and>
   (sassExamples \<noteq> [] \<and>
    length sassExamples < max (length scssExamples) (length cssExamples) \<longrightarrow>
    (\<Sum>j = length sassExamples ..< max (length scssExamples) (length cssExamples).
       max (lineCount scssExamples j) (lineCount cssExamples j) + 2)
    \<le> fst (snd (getPaddings scssExamples sassExamples cssExamples))
         ! (length sassExamples - 1)
       + lineCount sassExamples (length sassExamples - 1)) \<and>
   (cssExamples \<noteq> [] \<and>
    length cssExamples < max (length scssExamples) (length sassExamples) \<longrightarrow>
    (\<Sum>j = length cssExamples ..< max (length scssExamples) (length sassExamples).
       max (lineCount scssExamples j) (lineCount sassExamples j) + 2)
    \<le> snd (snd (getPaddings scssExamples sassExamples cssExamples))
         ! (length cssExamples - 1)
       + lineCount cssExamples (length cssExamples - 1))"
proof (intro conjI impI; elim conjE)
  assume ne: "scssExamples \<noteq> []"
    and lt: "length scssExamples < max (length sassExamples) (length cssExamples)"
  have "fst (getPaddings scssExamples sassExamples cssExamples) ! (length scssExamples - 1) =
      max (getTotalPadding (drop (length scssExamples - 1) sassExamples)
             (drop (length scssExamples - 1) cssExamples)
           - lineCount scssExamples (length scssExamples - 1) - 2) 0"
    by (simp only: getPaddings_nth(1) [OF last_index_in_range(1) [OF ne]]
          paddingsStep_last(1) [OF isLast_last [OF ne]])
  then show "(\<Sum>j = length scssExamples ..< max (length sassExamples) (length cssExamples).
       max (lineCount sassExamples j) (lineCount cssExamples j) + 2)
    \<le> fst (getPaddings scssExamples sassExamples cssExamples) ! (length scssExamples - 1)
       + lineCount scssExamples (length scssExamples - 1)"
    using tail_padding [OF ne lt] by (simp only:)
next
  assume ne: "sassExamples \<noteq> []"
    and lt: "length sassExamples < max (length scssExamples) (length cssExamples)"
  have "fst (snd (getPaddings scssExamples sassExamples cssExamples))
        ! (length sassExamples - 1) =
      max (getTotalPadding (drop (length sassExamples - 1) scssExamples)
             (drop (length sassExamples - 1) cssExamples)
           - lineCount sassExamples (length sassExamples - 1) - 2) 0"
    by (simp only: getPaddings_nth(2) [OF last_index_in_range(3) [OF ne]]
          paddingsStep_last(2) [OF isLast_last [OF ne]])
  then show "(\<Sum>j = length sassExamples ..< max (length scssExamples) (length cssExamples).
       max (lineCount scssExamples j) (lineCount cssExamples j) + 2)
    \<le> fst (snd (getPaddings scssExamples sassExamples cssExamples))
         ! (length sassExamples - 1)
       + lineCount sassExamples (length sassExamples - 1)"
    using tail_padding [OF ne lt] by (simp only:)
next
  assume ne: "cssExamples \<noteq> []"
    and lt: "length cssExamples < max (length scssExamples) (length sassExamples)"
  have "snd (snd (getPaddings scssExamples sassExamples cssExamples))
        ! (length cssExamples - 1) =
      max (getTotalPadding (drop (length cssExamples - 1) scssExamples)
             (drop (length cssExamples - 1) sassExamples)
           - lineCount cssExamples (length cssExamples - 1) - 2) 0"
    by (simp only: getPaddings_nth(3) [OF last_index_in_range(4) [OF ne]]
          paddingsStep_last(3) [OF isLast_last [OF ne]])
  then show "(\<Sum>j = length cssExamples ..< max (length scssExamples) (length sassExamples).
       max (lineCount scssExamples j) (lineCount sassExamples j) + 2)
    \<le> snd (snd (getPaddings scssExamples sassExamples cssExamples))
         ! (length cssExamples - 1)
       + lineCount cssExamples (length cssExamples - 1)"
    using tail_padding [OF ne lt] by (simp only:)
qed

theorem tail_padding_covers_remaining_sections_witness:
  "(\<Sum>j = 1 ..< 2. max (lineCount [''b'', ''c''] j) (lineCount [''d''] j) + 2)
     \<le> fst (getPaddings [''a''] [''b'', ''c''] [''d'']) ! 0 + lineCount [''a''] 0 \<and>
   (\<Sum>j = 1 ..< 2. max (lineCount [''b'', ''c''] j) (lineCount [''d''] j) + 2)
     \<le> fst (snd (getPaddings [''b'', ''c''] [''a''] [''d''])) ! 0 + lineCount [''a''] 0 \<and>
   (\<Sum>j = 1 ..< 2. max (lineCount [''b'', ''c''] j) (lineCount [''d''] j) + 2)
     \<le> snd (snd (getPaddings [''b'', ''c''] [''d''] [''a''])) ! 0 + lineCount [''a''] 0"
  using tail_padding_covers_remaining_sections [of "[''a'']" "[''b'', ''c'']" "[''d'']"]
    tail_padding_covers_remaining_sections [of "[''b'', ''c'']" "[''a'']" "[''d'']"]
    tail_padding_covers_remaining_sections [of "[''b'', ''c'']" "[''d'']" "[''a'']"]
  by (simp add: numeral_2_eq_2)

text \<open>
  C7, as the code has it. The pipeline fails with the error of line 84 exactly when no
  single-syntax selector is given and the second piece of the split on the separator
  \<open>===\<close> is undefined or the empty string. With a selector, an input without the
  separator and \<open>autogenCSS\<close> false, there is no error and no call of the compiler: the
  section set of the selected syntax is the input split on \<open>---\<close> and trimmed, and the
  two other section sets are empty.
\<close>

theorem malformed_input_iff:
  "(isMalformedInput (fst (generateCodeExample compileString contents autogenCSS syntax)) =
      (syntax = None \<and> \<not> truthyStr (atIndex (splitContents contents) 1))) \<and>
   (\<not> sublist ''\<newline>===\<newline>'' contents \<and> \<not> autogenCSS \<longrightarrow>
      generateCodeExample compileString contents autogenCSS (Some Scss) =
        (Inr (assemble (map trim (splitString contents ''\<newline>---\<newline>'')) [] []), []) \<and>
      generateCodeExample compileString contents autogenCSS (Some Sass) =
        (Inr (assemble [] (map trim (splitString contents ''\<newline>---\<newline>'')) []), []))"
proof (intro conjI impI)
  show "isMalformedInput (fst (generateCodeExample compileString contents autogenCSS syntax)) =
      (syntax = None \<and> \<not> truthyStr (atIndex (splitContents contents) 1))"
  proof (cases "selectContents contents syntax")
    case (Inl e)
    then have "syntax = None \<and> \<not> truthyStr (atIndex (splitContents contents) 1) \<and>
        e = MalformedInput contents"
      by (auto simp: selectContents_def Let_def split: option.splits sourceSyntax.splits
            if_splits)
    then show ?thesis using generateCodeExample_Inl [OF Inl] by simp
  next
    case (Inr t)
    then have "\<not> (syntax = None \<and> \<not> truthyStr (atIndex (splitContents contents) 1))"
      by (auto simp: selectContents_def Let_def split: option.splits sourceSyntax.splits
            if_splits)
    then show ?thesis using generateCodeExample_not_malformed [OF Inr] by simp
  qed
next
  assume a: "\<not> sublist ''\<newline>===\<newline>'' contents \<and> \<not> autogenCSS"
  then have blocks: "splitContents contents = [contents]"
    by (simp add: splitContents_no_separator)
  have "selectContents contents (Some Scss) = Inr (Some contents, None, None)"
    by (simp add: selectContents_def blocks atIndex_def)
  from generateCodeExample_Inr [OF this]
  show "generateCodeExample compileString contents autogenCSS (Some Scss) =
        (Inr (assemble (map trim (splitString contents ''\<newline>---\<newline>'')) [] []), [])"
    using a by (simp add: resolveCss_def examplesOf_def)
  have "selectContents contents (Some Sass) = Inr (None, Some contents, None)"
    by (simp add: selectContents_def blocks atIndex_def)
  from generateCodeExample_Inr [OF this]
  show "generateCodeExample compileString contents autogenCSS (Some Sass) =
        (Inr (assemble [] (map trim (splitString contents ''\<newline>---\<newline>'')) []), [])"
    using a by (simp add: resolveCss_def examplesOf_def)
qed

theorem malformed_input_iff_witness:
  "\<not> sublist ''\<newline>===\<newline>'' ''a\<newline>---\<newline>b'' \<and>
   generateCodeExample (\<lambda>_ _. None) ''a\<newline>---\<newline>b'' False (Some Scss) =
     (Inr (assemble [''a'', ''b''] [] []), []) \<and>
   generateCodeExample (\<lambda>_ _. None) ''a\<newline>---\<newline>b'' False (Some Sass) =
     (Inr (assemble [] [''a'', ''b''] []), []) \<and>
   isMalformedInput (fst (generateCodeExample (\<lambda>_ _. None) ''a\<newline>---\<newline>b'' False None))"
proof -
  have n: "\<not> sublist ''\<newline>===\<newline>'' ''a\<newline>---\<newline>b''"
    by (simp add: sublist_Cons_right)
  have s: "map trim (splitString ''a\<newline>---\<newline>b'' ''\<newline>---\<newline>'') = [''a'', ''b'']"
    by (simp add: splitString_def trim_def isWhiteSpace_def)
  have b: "\<not> truthyStr (atIndex (splitContents ''a\<newline>---\<newline>b'') 1)"
    by (simp add: splitContents_def splitString_def atIndex_def)
  show ?thesis
    using n b
      malformed_input_iff [of "\<lambda>_ _. None" "''a\<newline>---\<newline>b''" False None]
      malformed_input_iff [of "\<lambda>_ _. None" "''a\<newline>---\<newline>b''" False "Some Scss"]
    by (simp add: s)
qed

text \<open>
  C7, as the claim states it, fails: in the dual-syntax input below the separator line
  is present, and the pipeline fails with the error of line 84 all the same, because the
  block after the separator is empty.
\<close>

theorem malformed_input_counterexample:
  "sublist ''\<newline>===\<newline>'' ''a\<newline>===\<newline>'' \<and>
   splitContents ''a\<newline>===\<newline>'' = [''a'', ''''] \<and>
   fst (generateCodeExample (\<lambda>_ _. None) ''a\<newline>===\<newline>'' False None) =
     Inl (MalformedInput ''a\<newline>===\<newline>'')"
proof -
  have "sublist ''\<newline>===\<newline>'' (''a'' @ ''\<newline>===\<newline>'')"
    by (rule sublist_append_leftI)
  then show ?thesis by (simp add: parse_defs)
qed

text \<open>
  C8. The designated section set is the one the code compiles from (\<open>autogenSections\<close>:
  the SCSS sections when the SCSS block is non-empty, the Sass sections otherwise). When
  the blocks were selected without error, no compiled-output block was supplied,
  \<open>autogenCSS\<close> is set and the designated set has more than one section, the pipeline
  fails with the error of line 97 and the compiler is not called.
\<close>

theorem cannot_autogenerate_from_several_sections:
  assumes "selectContents contents syntax = Inr (scssContents, sassContents, None)"
    and "autogenCSS"
    and "1 < length (autogenSections scssContents (examplesOf scssContents)
                       (examplesOf sassContents))"
  shows "generateCodeExample compileString contents autogenCSS syntax =
           (Inl CannotAutoGenerate, [])"
  using generateCodeExample_Inr [OF assms(1)] assms(3)
  by (simp add: resolveCss_autogen [OF assms(2)])

theorem cannot_autogenerate_from_several_sections_witness:
  "selectContents ''a\<newline>---\<newline>b'' (Some Scss) = Inr (Some ''a\<newline>---\<newline>b'', None, None) \<and>
   autogenSections (Some ''a\<newline>---\<newline>b'') (examplesOf (Some ''a\<newline>---\<newline>b''))
     (examplesOf None) = [''a'', ''b''] \<and>
   generateCodeExample (\<lambda>_ _. Some ''x'') ''a\<newline>---\<newline>b'' True (Some Scss) =
     (Inl CannotAutoGenerate, [])"
proof -
  have s: "selectContents ''a\<newline>---\<newline>b'' (Some Scss) =
      Inr (Some ''a\<newline>---\<newline>b'', None, None)"
    by (simp add: selectContents_def splitContents_def splitString_def atIndex_def)
  have d: "autogenSections (Some ''a\<newline>---\<newline>b'') (examplesOf (Some ''a\<newline>---\<newline>b''))
      (examplesOf None) = [''a'', ''b'']"
    by (simp add: autogenSections_def examplesOf_def splitString_def trim_def
          isWhiteSpace_def)
  have "1 < length (autogenSections (Some ''a\<newline>---\<newline>b'')
      (examplesOf (Some ''a\<newline>---\<newline>b'')) (examplesOf None))"
    by (simp add: d)
  from cannot_autogenerate_from_several_sections [OF s _ this, of True "\<lambda>_ _. Some ''x''"]
  show ?thesis using s d by simp
qed

text \<open>
  C9, as the code has it. The designated section set is the one of the selected syntax,
  in dual-syntax mode the SCSS one. When the blocks were selected without error, no
  compiled-output block was supplied, \<open>autogenCSS\<close> is set, the designated section set has
  exactly one section and, unless the selector is Sass, the SCSS block is not the empty
  string, the compiler is called exactly once, with that section and the syntax option
  \<open>indented\<close> under the Sass selector and \<open>scss\<close> otherwise. If it throws, the pipeline
  fails; if it returns a text, the compiled-output section set is that text split on
  \<open>---\<close> and trimmed, like a supplied block.
\<close>

theorem autogenerate_calls_compiler_once:
  assumes "selectContents contents syntax = Inr (scssContents, sassContents, None)"
    and "autogenCSS"
    and "examplesOf (if syntax = Some Sass then sassContents else scssContents) = [source]"
    and "syntax \<noteq> Some Sass \<longrightarrow> truthyStr scssContents"
  shows "snd (generateCodeExample compileString contents autogenCSS syntax) =
           [(source, if syntax = Some Sass then SyntaxIndented else SyntaxScss)] \<and>
         fst (generateCodeExample compileString contents autogenCSS syntax) =
           (case compileString source
                   (if syntax = Some Sass then SyntaxIndented else SyntaxScss) of
              None \<Rightarrow> Inl CompilerFailure
            | Some compiled \<Rightarrow>
                Inr (assemble (examplesOf scssContents) (examplesOf sassContents)
                       (map trim (splitString compiled ''\<newline>---\<newline>''))))"
proof -
  have sections:
    "autogenSections scssContents (examplesOf scssContents) (examplesOf sassContents) =
       [source]"
  proof (cases "syntax = Some Sass")
    case True
    then have "scssContents = None"
      using assms(1) by (simp add: selectContents_def Let_def)
    then show ?thesis using assms(3) True by (simp add: autogenSections_def)
  next
    case False
    then show ?thesis using assms(3,4) by (simp add: autogenSections_def)
  qed
  have calls: "snd (generateCodeExample compileString contents autogenCSS syntax) =
      [(source, if syntax = Some Sass then SyntaxIndented else SyntaxScss)]"
    using generateCodeExample_Inr [OF assms(1)] sections
    by (simp add: resolveCss_autogen [OF assms(2)] split: option.splits)
  have result: "fst (generateCodeExample compileString contents autogenCSS syntax) =
      (case compileString source
              (if syntax = Some Sass then SyntaxIndented else SyntaxScss) of
         None \<Rightarrow> Inl CompilerFailure
       | Some compiled \<Rightarrow>
           Inr (assemble (examplesOf scssContents) (examplesOf sassContents)
                  (map trim (splitString compiled ''\<newline>---\<newline>''))))"
    using generateCodeExample_Inr [OF assms(1)] sections
    by (simp add: resolveCss_autogen [OF assms(2)] examplesOf_def split: option.splits)
  from calls result show ?thesis by (rule conjI)
qed

theorem autogenerate_calls_compiler_once_witness:
  "selectContents ''.a{color:red}'' (Some Scss) = Inr (Some ''.a{color:red}'', None, None) \<and>
   examplesOf (Some ''.a{color:red}'') = [''.a{color:red}''] \<and>
   truthyStr (Some ''.a{color:red}'') \<and>
   snd (generateCodeExample (\<lambda>_ _. Some ''.a {\<newline>  color: red;\<newline>}'') ''.a{color:red}''
          True (Some Scss)) = [(''.a{color:red}'', SyntaxScss)] \<and>
   fst (generateCodeExample (\<lambda>_ _. Some ''.a {\<newline>  color: red;\<newline>}'') ''.a{color:red}''
          True (Some Scss)) =
     Inr (assemble [''.a{color:red}''] [] [''.a {\<newline>  color: red;\<newline>}''])"
proof -
  have s: "selectContents ''.a{color:red}'' (Some Scss) =
      Inr (Some ''.a{color:red}'', None, None)"
    by (simp add: selectContents_def splitContents_def splitString_def atIndex_def)
  have e: "examplesOf (Some ''.a{color:red}'') = [''.a{color:red}'']"
    by (simp add: examplesOf_def splitString_def trim_def isWhiteSpace_def)
  have d: "examplesOf (if Some Scss = Some Sass then None else Some ''.a{color:red}'') =
      [''.a{color:red}'']"
    using e by simp
  have n: "Some Scss \<noteq> Some Sass \<longrightarrow> truthyStr (Some ''.a{color:red}'')"
    by simp
  have c: "map trim (splitString ''.a {\<newline>  color: red;\<newline>}'' ''\<newline>---\<newline>'') =
      [''.a {\<newline>  color: red;\<newline>}'']"
    by (simp add: splitString_def trim_def isWhiteSpace_def)
  have t: "True" by simp
  from autogenerate_calls_compiler_once
    [OF s t d n, of "\<lambda>_ _. Some ''.a {\<newline>  color: red;\<newline>}''"]
  show ?thesis using s e c by (simp add: examplesOf_def)
qed

text \<open>
  C9, as the claim states it, fails: the text the compiler returns is split on \<open>---\<close> and
  trimmed. A returned text with a \<open>---\<close> line gives two compiled-output sections, and a
  returned text that ends with a newline gives a section that is not the returned text.
\<close>

theorem autogenerate_counterexample:
  "css (projr (fst (generateCodeExample (\<lambda>_ _. Some ''a\<newline>---\<newline>b'') ''.a{color:red}''
          True (Some Scss)))) = [''a'', ''b''] \<and>
   snd (generateCodeExample (\<lambda>_ _. Some ''a\<newline>---\<newline>b'') ''.a{color:red}''
          True (Some Scss)) = [(''.a{color:red}'', SyntaxScss)] \<and>
   css (projr (fst (generateCodeExample (\<lambda>_ _. Some ''.a {\<newline>  color: red;\<newline>}\<newline>'')
          ''.a{color:red}'' True (Some Scss)))) = [''.a {\<newline>  color: red;\<newline>}''] \<and>
   [''.a {\<newline>  color: red;\<newline>}''] \<noteq> [''.a {\<newline>  color: red;\<newline>}\<newline>'']"
  by (simp add: parse_defs assemble_fields)

text \<open>
  C5, as the code has it. On the input of the first example, with \<open>autogenCSS\<close> false and
  no selector, the compiler is not called, the SCSS section set is the one-line section,
  the Sass section set is the two-line section, the compiled-output section set is
  empty, and the padding tables are \<open>[1]\<close> for SCSS (its only section is one line shorter
  than the Sass one), \<open>[0]\<close> for Sass and \<open>[0]\<close> for the compiled output.
\<close>

theorem example1_layout:
  "generateCodeExample compileString
     ''.foo{color:blue}\<newline>===\<newline>.foo\<newline>  color: blue'' False None =
     (Inr (assemble [''.foo{color:blue}''] [''.foo\<newline>  color: blue''] []), []) \<and>
   scss (assemble [''.foo{color:blue}''] [''.foo\<newline>  color: blue''] []) =
     [''.foo{color:blue}''] \<and>
   sass (assemble [''.foo{color:blue}''] [''.foo\<newline>  color: blue''] []) =
     [''.foo\<newline>  color: blue''] \<and>
   css (assemble [''.foo{color:blue}''] [''.foo\<newline>  color: blue''] []) = [] \<and>
   scssPaddings (assemble [''.foo{color:blue}''] [''.foo\<newline>  color: blue''] []) = [1] \<and>
   sassPaddings (assemble [''.foo{color:blue}''] [''.foo\<newline>  color: blue''] []) = [0] \<and>
   cssPaddings (assemble [''.foo{color:blue}''] [''.foo\<newline>  color: blue''] []) = [0]"
proof -
  have "generateCodeExample compileString
      ''.foo{color:blue}\<newline>===\<newline>.foo\<newline>  color: blue'' False None =
      (Inr (assemble [''.foo{color:blue}''] [''.foo\<newline>  color: blue''] []), [])"
    by (simp add: parse_defs)
  moreover have "getPaddings [''.foo{color:blue}''] [''.foo\<newline>  color: blue''] [] =
      ([1], [0], [0])"
    by (simp add: padding_defs split del: if_split)
  ultimately show ?thesis by (simp add: assemble_fields)
qed

text \<open>
  C5, as the claim states it, fails: the layout of the first example is not the one the
  claim gives, whose SCSS padding table is \<open>[0]\<close>.
\<close>

theorem example1_counterexample:
  "generateCodeExample (\<lambda>_ _. None)
     ''.foo{color:blue}\<newline>===\<newline>.foo\<newline>  color: blue'' False None \<noteq>
     (Inr \<lparr>scss = [''.foo{color:blue}''], sass = [''.foo\<newline>  color: blue''], css = [],
           scssPaddings = [0], sassPaddings = [0], cssPaddings = [0],
           canSplit = False, splitLocation = None\<rparr>, [])"
proof -
  have "generateCodeExample (\<lambda>_ _. None)
      ''.foo{color:blue}\<newline>===\<newline>.foo\<newline>  color: blue'' False None =
      (Inr (assemble [''.foo{color:blue}''] [''.foo\<newline>  color: blue''] []), [])"
    by (simp add: parse_defs)
  moreover have "getPaddings [''.foo{color:blue}''] [''.foo\<newline>  color: blue''] [] =
      ([1], [0], [0])"
    by (simp add: padding_defs split del: if_split)
  then have "scssPaddings (assemble [''.foo{color:blue}''] [''.foo\<newline>  color: blue''] [])
      = [1]"
    by (simp add: assemble_fields)
  then have "assemble [''.foo{color:blue}''] [''.foo\<newline>  color: blue''] [] \<noteq>
      \<lparr>scss = [''.foo{color:blue}''], sass = [''.foo\<newline>  color: blue''], css = [],
       scssPaddings = [0], sassPaddings = [0], cssPaddings = [0],
       canSplit = False, splitLocation = None\<rparr>"
    by (metis layout.select_convs(4) list.inject zero_neq_one)
  ultimately show ?thesis by simp
qed

text \<open>
  C1. What the code computes where the claim fails. With a source line of 60 characters
  and a compiled-output line of 5 characters the split is possible and one width is not
  under 55; the split location is \<open>0.5 + ((60 - 5) / 110 / 2) * 100 = 25.5\<close>, where the
  claim gives \<open>50 + 25 = 75\<close>. With widths 1 and 108 it is negative.
\<close>

theorem split_location_wide_source:
  "generateCodeExample compileString
     (replicate 60 CHR ''x'' @ ''\<newline>===\<newline>yyyyy'') False (Some Scss) =
     (Inr (assemble [replicate 60 CHR ''x''] [] [''yyyyy'']), []) \<and>
   getCanSplit [replicate 60 CHR ''x''] [] [''yyyyy''] = (True, Finite 60, Finite 5) \<and>
   splitLocation (assemble [replicate 60 CHR ''x''] [] [''yyyyy'']) = Some (Finite (51 / 2)) \<and>
   splitLocation (assemble [replicate 60 CHR ''x''] [] [''yyyyy'']) \<noteq> Some (Finite 75) \<and>
   getCanSplit [''x''] [] [replicate 108 CHR ''y''] = (True, Finite 1, Finite 108) \<and>
   splitLocation (assemble [''x''] [] [replicate 108 CHR ''y'']) =
     Some (Finite (- (1059 / 22)))"
proof -
  have "generateCodeExample compileString
      (replicate 60 CHR ''x'' @ ''\<newline>===\<newline>yyyyy'') False (Some Scss) =
      (Inr (assemble [replicate 60 CHR ''x''] [] [''yyyyy'']), [])"
    by (simp add: parse_defs eval_nat_numeral)
  moreover have a: "getCanSplit [replicate 60 CHR ''x''] [] [''yyyyy''] =
      (True, Finite 60, Finite 5)"
    by (simp add: split_defs eval_nat_numeral)
  moreover have b: "getCanSplit [''x''] [] [replicate 108 CHR ''y''] =
      (True, Finite 1, Finite 108)"
    by (simp add: split_defs eval_nat_numeral)
  moreover have "splitLocationOf True (Finite 60) (Finite 5) = Some (Finite (51 / 2))"
    by (simp add: split_defs)
  moreover have "splitLocationOf True (Finite 1) (Finite 108) =
      Some (Finite (- (1059 / 22)))"
    by (simp add: split_defs)
  ultimately show ?thesis by (simp add: assemble_fields)
qed

text \<open>
  C2. What the code computes where the claim fails. With no compiled-output section the
  largest compiled-output width is \<^verbatim>\<open>-Infinity\<close>, which is truthy, and its sum with the
  largest source width is below 110: the split is possible, whatever the source sections
  are. On a dual-syntax input with one short section in each syntax and no compiled
  output the layout has \<open>canSplit\<close> true and the split location 50.
\<close>

theorem can_split_without_css:
  "getCanSplit scssExamples sassExamples [] =
     (True, mathMax (lineLengths (scssExamples @ sassExamples)), NegInfinity) \<and>
   generateCodeExample compileString ''a\<newline>===\<newline>b'' False None =
     (Inr (assemble [''a''] [''b''] []), []) \<and>
   css (assemble [''a''] [''b''] []) = [] \<and>
   canSplit (assemble [''a''] [''b''] []) = True \<and>
   splitLocation (assemble [''a''] [''b''] []) = Some (Finite 50)"
proof -
  have g: "getCanSplit scssExamples sassExamples [] =
      (True, mathMax (lineLengths (scssExamples @ sassExamples)), NegInfinity)"
    for scssExamples sassExamples
    using mathMax_lineLengths_cases [of "scssExamples @ sassExamples"]
    by (auto simp: getCanSplit_def Let_def lineLengths_def mathMax_def)
  have "generateCodeExample compileString ''a\<newline>===\<newline>b'' False None =
      (Inr (assemble [''a''] [''b''] []), [])"
    by (simp add: parse_defs)
  moreover have "getCanSplit [''a''] [''b''] [] = (True, Finite 1, NegInfinity)"
    by (simp add: split_defs)
  moreover have "splitLocationOf True (Finite 1) NegInfinity = Some (Finite 50)"
    by (simp add: split_defs)
  ultimately show ?thesis using g by (simp add: assemble_fields)
qed

text \<open>
  C10. An input that begins with \<open>===\<close>, so also one whose first line is \<open>===\<close>, keeps
  these characters at the start of its first block, and an input whose last line is
  \<open>===\<close> keeps it at the end of its last block; the same holds for a block that begins
  with \<open>---\<close> or whose last line is \<open>---\<close>, and its first or last section. An input or a block is cut exactly when the separator, with the newline
  before and the newline after it, occurs inside it. The input of the last conjunct has
  \<open>===\<close> as its first and as its third line: only the third is a separator.
\<close>

theorem separators_are_infix_lines:
  "prefix ''==='' (hd (splitContents (''==='' @ rest))) \<and>
   suffix ''==='' (last (splitContents (rest @ ''\<newline>===''))) \<and>
   prefix ''---'' (hd (examplesOf (Some (''---'' @ rest)))) \<and>
   suffix ''---'' (last (examplesOf (Some (rest @ ''\<newline>---'')))) \<and>
   (length (splitContents contents) = 1) = (\<not> sublist ''\<newline>===\<newline>'' contents) \<and>
   (length (examplesOf (Some block)) = 1) = (\<not> sublist ''\<newline>---\<newline>'' block) \<and>
   splitContents ''===\<newline>.a{}\<newline>===\<newline>.a'' = [''===\<newline>.a{}'', ''.a'']"
proof (intro conjI)
  have e1: "prefix ''==='' (hd (splitFrom ''\<newline>===\<newline>'' (''==='' @ rest)))"
    using hd_splitFrom_line [of "CHR ''=''" "CHR ''\<newline>''" "''===\<newline>''" rest]
    by (simp del: splitFrom.simps)
  have e2: "suffix ''==='' (last (splitFrom ''\<newline>===\<newline>'' (rest @ ''\<newline>===''))) "
    using last_splitFrom_line [of "CHR ''=''" "''\<newline>===''" "CHR ''\<newline>''" rest]
    by (simp add: suffix_def del: splitFrom.simps)
  have d1: "prefix ''---'' (hd (splitFrom ''\<newline>---\<newline>'' (''---'' @ rest)))"
    using hd_splitFrom_line [of "CHR ''-''" "CHR ''\<newline>''" "''---\<newline>''" rest]
    by (simp del: splitFrom.simps)
  have d2: "suffix ''---'' (last (splitFrom ''\<newline>---\<newline>'' (rest @ ''\<newline>---''))) "
    using last_splitFrom_line [of "CHR ''-''" "''\<newline>---''" "CHR ''\<newline>''" rest]
    by (simp add: suffix_def del: splitFrom.simps)
  have w: "''---'' \<noteq> []" "\<not> isWhiteSpace (hd ''---'')" "\<not> isWhiteSpace (last ''---'')"
    by (simp_all add: isWhiteSpace_def)
  show "prefix ''==='' (hd (splitContents (''==='' @ rest)))"
    using e1 by (simp add: splitContents_def splitString_def del: splitFrom.simps)
  show "suffix ''==='' (last (splitContents (rest @ ''\<newline>===''))) "
    using e2 by (simp add: splitContents_def splitString_def del: splitFrom.simps)
  show "prefix ''---'' (hd (examplesOf (Some (''---'' @ rest))))"
    using trim_keeps_prefix [OF w d1]
    by (simp add: examplesOf_def splitString_def hd_map splitFrom_not_Nil
          del: splitFrom.simps)
  show "suffix ''---'' (last (examplesOf (Some (rest @ ''\<newline>---''))))"
    using trim_keeps_suffix [OF w d2]
    by (simp add: examplesOf_def splitString_def last_map splitFrom_not_Nil
          del: splitFrom.simps)
  show "(length (splitContents contents) = 1) = (\<not> sublist ''\<newline>===\<newline>'' contents)"
    using length_splitFrom_one [of "''\<newline>===\<newline>''" contents]
    by (simp add: splitContents_def splitString_def del: splitFrom.simps)
  show "(length (examplesOf (Some block)) = 1) = (\<not> sublist ''\<newline>---\<newline>'' block)"
    using length_splitFrom_one [of "''\<newline>---\<newline>''" block]
    by (simp add: examplesOf_def splitString_def del: splitFrom.simps)
  show "splitContents ''===\<newline>.a{}\<newline>===\<newline>.a'' = [''===\<newline>.a{}'', ''.a'']"
    by (simp add: splitContents_def splitString_def)
qed

end
